theory Spec2Isabelle
  imports Main "HOL-Library.Word" "HOL-Library.Multiset"
begin

text \<open>
  The layer hierarchy of the front end of the compositor: a graph of nodes over the
  requested layer states, walked depth first or in z-order, with a traversal path that
  names each visit. The sources hold the header \<^verbatim>\<open>LayerHierarchy.h\<close>: the data, the
  inline functions of \<^verbatim>\<open>TraversalPath\<close> and the public entry points are translated
  from it. The functions that the header only declares are modelled from the
  specification, each marked where it is defined.
\<close>

section \<open>LayerHierarchy: the data of the header\<close>

text \<open>
  \<^verbatim>\<open>enum Variant { Attached, Detached, Relative, Mirror }\<close> of
  \<^verbatim>\<open>LayerHierarchy.h\<close>.
\<close>

datatype Variant = Attached | Detached | Relative | Mirror

text \<open>
  \<^verbatim>\<open>struct TraversalPath\<close>: the fields in declaration order. The two
  \<^verbatim>\<open>ftl::SmallVector<uint32_t, 5>\<close> are lists (the inline capacity 5 is an
  allocation detail). The field \<^verbatim>\<open>id\<close> is written \<open>id_path\<close>, the name
  \<open>id\<close> being the identity function of HOL.
\<close>

record TraversalPath =
  id_path :: "32 word"
  variant :: Variant
  mirrorRootIds :: "32 word list"
  relativeRootIds :: "32 word list"
  invalidRelativeRootId :: "32 word"

text \<open>
  \<^verbatim>\<open>bool hasRelZLoop() const { return invalidRelativeRootId != UNASSIGNED_LAYER_ID; }\<close>
  The constant \<^verbatim>\<open>UNASSIGNED_LAYER_ID\<close> is declared in
  \<^verbatim>\<open>LayerCreationArgs.h\<close>, which is not among the sources; it is the
  parameter \<open>unassigned\<close> of every definition that reads it.
\<close>

definition TraversalPath_hasRelZLoop :: "32 word \<Rightarrow> TraversalPath \<Rightarrow> bool" where
  "TraversalPath_hasRelZLoop unassigned p \<longleftrightarrow> invalidRelativeRootId p \<noteq> unassigned"

text \<open>\<^verbatim>\<open>bool isRelative() { return !relativeRootIds.empty(); }\<close>\<close>

definition isRelative :: "TraversalPath \<Rightarrow> bool" where
  "isRelative p \<longleftrightarrow> relativeRootIds p \<noteq> []"

text \<open>
  \<^verbatim>\<open>bool operator==(const TraversalPath& other) const {
      return id == other.id && mirrorRootIds == other.mirrorRootIds; }\<close>
  Equality of two small vectors is equality of their element sequences.
\<close>

definition TraversalPath_eq :: "TraversalPath \<Rightarrow> TraversalPath \<Rightarrow> bool" where
  "TraversalPath_eq p other \<longleftrightarrow>
     id_path p = id_path other \<and> mirrorRootIds p = mirrorRootIds other"

text \<open>
  Modelled from the spec: \<^verbatim>\<open>RequestedLayerState.h\<close> is missing. The record has what
  the ingest boundary of the specification lists for a layer state record: an id, a
  structural parent id or none, a relative parent id or none, a mirror source id or none,
  and a z-order value.
\<close>

record RequestedLayerState =
  id_layer :: "32 word"
  parentId :: "32 word option"
  relativeParentId :: "32 word option"
  layerIdToMirror :: "32 word option"
  z :: int

text \<open>
  \<^verbatim>\<open>class LayerHierarchy\<close>. The nodes of a hierarchy stand in an arena, the list
  of all of them (a node is reached through several parents, so the nodes are shared, not
  nested), and a \<^verbatim>\<open>LayerHierarchy*\<close> is the index of a node in the arena; a null
  pointer is \<open>None\<close>. The members, as declared:
  \<^verbatim>\<open>std::vector<std::pair<LayerHierarchy*, Variant>> mChildren;
  const RequestedLayerState* mLayer;
  LayerHierarchy* mParent = nullptr;
  LayerHierarchy* mRelativeParent = nullptr;\<close>
\<close>

type_synonym node_ref = nat

record LayerHierarchy =
  mChildren :: "(node_ref \<times> Variant) list"
  mLayer :: "RequestedLayerState option"
  mParent :: "node_ref option"
  mRelativeParent :: "node_ref option"

type_synonym graph = "LayerHierarchy list"

text \<open>
  \<^verbatim>\<open>LayerHierarchy(RequestedLayerState* layer)\<close>: a node created for a layer. The
  members other than \<^verbatim>\<open>mLayer\<close> take the values of their declarations: an empty
  vector and the two default member initialisers \<^verbatim>\<open>= nullptr\<close>.
\<close>

definition LayerHierarchy_ctor :: "RequestedLayerState option \<Rightarrow> LayerHierarchy" where
  "LayerHierarchy_ctor layer =
     \<lparr>mChildren = [], mLayer = layer, mParent = None, mRelativeParent = None\<rparr>"

text \<open>
  \<^verbatim>\<open>typedef std::function<bool(const LayerHierarchy&, const TraversalPath&)> Visitor\<close>.
  A visitor is a closure: what it captures and mutates is the state \<open>'s\<close> that the walk
  threads through its calls. It returns whether to go on below the node.
\<close>

type_synonym 's Visitor = "LayerHierarchy \<Rightarrow> TraversalPath \<Rightarrow> 's \<Rightarrow> bool \<times> 's"


text \<open>
  \<^verbatim>\<open>child->mLayer\<close> read through a child pointer: none when the pointer leaves the
  arena or the node has no layer.
\<close>

definition layer_of :: "graph \<Rightarrow> node_ref \<Rightarrow> RequestedLayerState option" where
  "layer_of g c = (if c < length g then mLayer (g ! c) else None)"

section \<open>The scoped path context\<close>

text \<open>
  \<^verbatim>\<open>class ScopedAddToTraversalPath\<close>: the members that the header declares beside the
  reference to the path, which is the path threaded through the calls here.
  \<^verbatim>\<open>TraversalPath& mTraversalPath;
  uint32_t mParentId;
  LayerHierarchy::Variant mParentVariant;\<close>
\<close>

record ScopedAddToTraversalPath =
  mParentId :: "32 word"
  mParentVariant :: Variant

text \<open>
  Modelled from the spec: the body of the constructor is in the missing
  \<^verbatim>\<open>LayerHierarchy.cpp\<close>. "On push: append the new (id, kind) as current path head;
  if kind is Mirror, push id onto the mirror-root stack; if kind is Relative, check
  membership in the relative-root stack: if already present, set the duplicate marker
  (propagated to the whole path instance); then push id regardless." The result is the
  scope, which keeps the previous id and kind, and the path as the constructor leaves it.
\<close>

definition ScopedAddToTraversalPath_ctor ::
  "TraversalPath \<Rightarrow> 32 word \<Rightarrow> Variant \<Rightarrow> ScopedAddToTraversalPath \<times> TraversalPath" where
  "ScopedAddToTraversalPath_ctor traversalPath layerId variantArg =
    (let scope = \<lparr>mParentId = id_path traversalPath,
                   mParentVariant = variant traversalPath\<rparr>;
         p1 = traversalPath\<lparr>id_path := layerId, variant := variantArg\<rparr>;
         p2 = (if variantArg = Mirror then p1\<lparr>mirrorRootIds := mirrorRootIds p1 @ [layerId]\<rparr>
               else if variantArg = Relative then
                 (let flagged = (if layerId \<in> set (relativeRootIds p1)
                                 then p1\<lparr>invalidRelativeRootId := layerId\<rparr> else p1)
                  in flagged\<lparr>relativeRootIds := relativeRootIds flagged @ [layerId]\<rparr>)
               else p1)
     in (scope, p2))"

text \<open>
  Modelled from the spec: the body of the destructor is in the missing
  \<^verbatim>\<open>LayerHierarchy.cpp\<close>. "On pop (destruction of the scope): restore the path to
  exactly its pre-push state (previous id, previous kind, and truncate both stacks back to
  their pre-push length)." The class
  keeps no lengths: the stack that the push extended is known from the kind at the head of
  the path, and it is cut by the one id pushed. The pop does what the specification lists
  and no more: the duplicate marker is not among the things it puts back, and the class has
  no member that could hold its previous value.
\<close>

definition ScopedAddToTraversalPath_dtor ::
  "ScopedAddToTraversalPath \<Rightarrow> TraversalPath \<Rightarrow> TraversalPath" where
  "ScopedAddToTraversalPath_dtor scope traversalPath =
    (let cut = (if variant traversalPath = Mirror
                then traversalPath\<lparr>mirrorRootIds := butlast (mirrorRootIds traversalPath)\<rparr>
                else if variant traversalPath = Relative
                then traversalPath\<lparr>relativeRootIds := butlast (relativeRootIds traversalPath)\<rparr>
                else traversalPath)
     in cut\<lparr>id_path := mParentId scope, variant := mParentVariant scope\<rparr>)"

section \<open>The two traversals\<close>

text \<open>
  A call of the walk is either at a node or in the loop over the rest of a child list,
  each with the path and the visitor's state at that point.
\<close>

datatype 's call =
  AtNode node_ref TraversalPath 's
| AtChildren "(node_ref \<times> Variant) list" TraversalPath 's

type_synonym children_of = "graph \<Rightarrow> LayerHierarchy \<Rightarrow> (node_ref \<times> Variant) list option"

text \<open>
  Modelled from the spec: the bound on the descent. "Entering a relative parent is
  depth-bounded by total node count regardless" of a detected loop: a \<open>Relative\<close> child
  is entered only while the relative-root stack of the path holds fewer ids than the arena
  has nodes. Children of the other kinds are always entered.
\<close>

definition enters :: "graph \<Rightarrow> TraversalPath \<Rightarrow> Variant \<Rightarrow> bool" where
  "enters g p childVariant \<longleftrightarrow>
     (if childVariant = Relative then length (relativeRootIds p) < length g else True)"

text \<open>
  Modelled from the spec: the private \<^verbatim>\<open>traverse(visitor, parent)\<close> and
  \<^verbatim>\<open>traverseInZOrder(visitor, parent)\<close> are declared in the header and defined in the
  missing \<^verbatim>\<open>LayerHierarchy.cpp\<close>. The specification gives one descent for both: the
  visitor receives the current node and its path and returns a boolean, false prunes the
  subtree below the node and the siblings are still visited; before the descent into a
  child the path is extended by the scoped push with the child's layer id and the kind of
  the edge, and after the return the scope is popped; the descent through \<open>Relative\<close>
  edges is bounded as \<open>enters\<close> says. The two traversals differ in the children they
  descend into and in their order, the parameter \<open>sel\<close>.

  The mutable path is one value threaded through the walk, as the reference parameter of
  the source is. The result is \<open>None\<close> when the walk never returns, \<open>Some None\<close> when
  it follows a pointer out of the arena or reads the layer of a node that has none, and
  \<open>Some (Some (p, s))\<close> with the path and the visitor's state when it returns.
\<close>

partial_function (option) walk ::
  "children_of \<Rightarrow> graph \<Rightarrow> 's Visitor \<Rightarrow> 's call \<Rightarrow> (TraversalPath \<times> 's) option option" where
  "walk sel g visitor c =
    (case c of
       AtNode h p s \<Rightarrow>
         if h < length g then
           (case visitor (g ! h) p s of
              (continue, s') \<Rightarrow>
                if \<not> continue then Some (Some (p, s'))
                else (case sel g (g ! h) of
                        None \<Rightarrow> Some None
                      | Some cs \<Rightarrow> walk sel g visitor (AtChildren cs p s')))
         else Some None
     | AtChildren cs p s \<Rightarrow>
         (case cs of
            [] \<Rightarrow> Some (Some (p, s))
          | (child, childVariant) # rest \<Rightarrow>
             if \<not> enters g p childVariant then walk sel g visitor (AtChildren rest p s)
             else
              (case layer_of g child of
                 None \<Rightarrow> Some None
               | Some layer \<Rightarrow>
                  (case ScopedAddToTraversalPath_ctor p (id_layer layer) childVariant of
                    (scope, p1) \<Rightarrow>
                      Option.bind (walk sel g visitor (AtNode child p1 s))
                        (\<lambda>r. case r of
                           None \<Rightarrow> Some None
                         | Some (p2, s2) \<Rightarrow>
                             walk sel g visitor
                               (AtChildren rest (ScopedAddToTraversalPath_dtor scope p2) s2))))))"

text \<open>
  Modelled from the spec: \<^verbatim>\<open>traverse\<close> "visits every child regardless of kind", in
  the order of \<^verbatim>\<open>mChildren\<close>.
\<close>

definition all_children :: children_of where
  "all_children g n = Some (mChildren n)"

text \<open>
  Modelled from the spec: the sort key of a child edge, "the record's declared z value",
  read through the layer pointer of the child. The value for a child without a layer is
  never used: the sort below has no result then.
\<close>

definition child_z :: "graph \<Rightarrow> node_ref \<times> Variant \<Rightarrow> int" where
  "child_z g e = (case layer_of g (fst e) of None \<Rightarrow> 0 | Some layer \<Rightarrow> z layer)"

text \<open>
  Modelled from the spec: the body of \<^verbatim>\<open>sortChildrenByZOrder\<close> is missing. "Sorting
  children by z-order is a stable sort keyed on the record's declared z value; ties
  preserve insertion order." The key is read through the layer pointer of the child, so
  the sort has no result when a child has no layer. \<open>sort_key\<close> is the stable
  insertion sort of the list library.
\<close>

definition sortChildrenByZOrder :: "graph \<Rightarrow> LayerHierarchy \<Rightarrow> LayerHierarchy option" where
  "sortChildrenByZOrder g n =
     (if list_all (\<lambda>e. layer_of g (fst e) \<noteq> None) (mChildren n)
      then Some (n\<lparr>mChildren := sort_key (child_z g) (mChildren n)\<rparr>)
      else None)"

text \<open>
  Modelled from the spec: \<^verbatim>\<open>traverseInZOrder\<close> has the "same descent rules except
  (1) Detached children are skipped entirely, and (2) children are visited in ascending
  z-order", Attached and Relative children merged in one sibling list.
\<close>

definition z_order_children :: children_of where
  "z_order_children g n =
     map_option (\<lambda>n'. filter (\<lambda>e. snd e \<noteq> Detached) (mChildren n'))
       (sortChildrenByZOrder g n)"

text \<open>
  \<^verbatim>\<open>void traverse(const Visitor& visitor) const {
      traverse(visitor, TraversalPath::ROOT_TRAVERSAL_ID); }\<close> and
  \<^verbatim>\<open>void traverseInZOrder(const Visitor& visitor) const {
      traverseInZOrder(visitor, TraversalPath::ROOT_TRAVERSAL_ID); }\<close>
  The public entry points pass the static \<^verbatim>\<open>TraversalPath::ROOT_TRAVERSAL_ID\<close> by
  reference. Its value is set in the missing \<^verbatim>\<open>LayerHierarchy.cpp\<close>, so it is the
  parameter \<open>root_path\<close>; the walk returns it as the call leaves it.
\<close>

definition traverse ::
  "graph \<Rightarrow> 's Visitor \<Rightarrow> TraversalPath \<Rightarrow> node_ref \<Rightarrow> 's \<Rightarrow> (TraversalPath \<times> 's) option option" where
  "traverse g visitor root_path h s = walk all_children g visitor (AtNode h root_path s)"

definition traverseInZOrder ::
  "graph \<Rightarrow> 's Visitor \<Rightarrow> TraversalPath \<Rightarrow> node_ref \<Rightarrow> 's \<Rightarrow> (TraversalPath \<times> 's) option option" where
  "traverseInZOrder g visitor root_path h s =
     walk z_order_children g visitor (AtNode h root_path s)"

text \<open>
  Modelled from the spec: the visitor of the missing body of
  \<^verbatim>\<open>LayerHierarchy::hasRelZLoop\<close>. The out-parameter is to hold "the first relative
  root that was visited twice in a traversal": the visitor keeps the marker of the first
  path it meets whose \<^verbatim>\<open>hasRelZLoop()\<close> is true. It never prunes. The state
  \<open>None\<close> is "nothing found, out-parameter not written".
\<close>

definition hasRelZLoop_visitor :: "32 word \<Rightarrow> (32 word option) Visitor" where
  "hasRelZLoop_visitor unassigned n p found =
     (True, if TraversalPath_hasRelZLoop unassigned p
            then (case found of None \<Rightarrow> Some (invalidRelativeRootId p) | Some i \<Rightarrow> Some i)
            else found)"


text \<open>A visitor that never prunes and records every visit, in order.\<close>

definition recording_visitor :: "((LayerHierarchy \<times> TraversalPath) list) Visitor" where
  "recording_visitor n p visits = (True, visits @ [(n, p)])"

section \<open>Well-formed hierarchies\<close>

text \<open>
  What the traversals take for granted of the arena, \<open>rk\<close> being a rank of the nodes:
  every child pointer leads to a node of the arena that has a layer, and the rank
  decreases along every edge that is not \<open>Relative\<close>, so that the structural hierarchy
  has no cycle. Relative edges are free to form loops.
\<close>

definition hierarchy_ok :: "graph \<Rightarrow> (node_ref \<Rightarrow> nat) \<Rightarrow> bool" where
  "hierarchy_ok g rk \<longleftrightarrow>
     list_all (\<lambda>h. list_all (\<lambda>e. layer_of g (fst e) \<noteq> None
                                \<and> (snd e = Relative \<or> rk (fst e) < rk h))
                      (mChildren (g ! h)))
       [0..<length g]"





section \<open>Auxiliary notions\<close>

text \<open>The path and the visitor's state a call of the walk starts from.\<close>

fun call_path :: "'s call \<Rightarrow> TraversalPath" where
  "call_path (AtNode h p s) = p"
| "call_path (AtChildren cs p s) = p"

fun call_state :: "'s call \<Rightarrow> 's" where
  "call_state (AtNode h p s) = s"
| "call_state (AtChildren cs p s) = s"

text \<open>
  \<open>same_frame p q\<close>: the path \<open>q\<close> has the id, the kind and both stacks of the path
  \<open>p\<close>. Only the duplicate marker can differ.
\<close>

definition same_frame :: "TraversalPath \<Rightarrow> TraversalPath \<Rightarrow> bool" where
  "same_frame p q \<longleftrightarrow> q = p\<lparr>invalidRelativeRootId := invalidRelativeRootId q\<rparr>"




text \<open>The same call, started from another state of the visitor.\<close>

fun with_state :: "'s call \<Rightarrow> 't \<Rightarrow> 't call" where
  "with_state (AtNode h p s) t = AtNode h p t"
| "with_state (AtChildren cs p s) t = AtChildren cs p t"





section \<open>Example graphs\<close>

text \<open>
  A root path as the entry points pass it: no layer id yet (the value of
  \<^verbatim>\<open>UNASSIGNED_LAYER_ID\<close> taken to be the largest 32-bit number), reached as
  \<open>Attached\<close>, both stacks empty and no duplicate marker.
\<close>

definition example_unassigned :: "32 word" where
  "example_unassigned = 0xFFFFFFFF"

definition example_root_path :: TraversalPath where
  "example_root_path =
     \<lparr>id_path = example_unassigned, variant = Attached, mirrorRootIds = [],
      relativeRootIds = [], invalidRelativeRootId = example_unassigned\<rparr>"

definition example_layer ::
  "32 word \<Rightarrow> 32 word option \<Rightarrow> 32 word option \<Rightarrow> int \<Rightarrow> RequestedLayerState" where
  "example_layer i parent relativeParent zv =
     \<lparr>id_layer = i, parentId = parent, relativeParentId = relativeParent,
      layerIdToMirror = None, z = zv\<rparr>"

definition example_node ::
  "RequestedLayerState option \<Rightarrow> node_ref option \<Rightarrow> node_ref option
     \<Rightarrow> (node_ref \<times> Variant) list \<Rightarrow> LayerHierarchy" where
  "example_node layer parent relativeParent children =
     \<lparr>mChildren = children, mLayer = layer, mParent = parent, mRelativeParent = relativeParent\<rparr>"



text \<open>
  Two layers relatively parented to each other, A (id 2, node 2) and B (id 3, node 3),
  both structural children of the root layer 1; before them a layer 4 relatively parented
  to its sibling, layer 5, which is no loop. Node 0 is the root without a layer.
\<close>

definition example_loop_graph :: graph where
  "example_loop_graph =
     [example_node None None None [(1, Attached)],
      example_node (Some (example_layer 1 None None 0)) (Some 0) None
        [(5, Attached), (4, Detached), (2, Detached), (3, Detached)],
      example_node (Some (example_layer 2 (Some 1) (Some 3) 0)) (Some 1) (Some 3) [(3, Relative)],
      example_node (Some (example_layer 3 (Some 1) (Some 2) 0)) (Some 1) (Some 2) [(2, Relative)],
      example_node (Some (example_layer 4 (Some 1) (Some 5) 0)) (Some 1) (Some 5) [],
      example_node (Some (example_layer 5 (Some 1) None 0)) (Some 1) None [(4, Relative)]]"

definition example_loop_rank :: "node_ref \<Rightarrow> nat" where
  "example_loop_rank k = (if k = 0 then 3 else if k = 1 then 2 else if k = 5 then 1 else 0)"


text \<open>
  A layer 1 whose children were added with the z values 3, 1, 2, 1 and 0: a \<open>Relative\<close>
  child among \<open>Attached\<close> ones, two children with the same z, and a \<open>Detached\<close>
  one. The first child, layer 2, has two children of its own, added with the z values 2
  and 1. Node \<open>k\<close> holds layer \<open>k + 1\<close>.
\<close>

definition example_z_graph :: graph where
  "example_z_graph =
     [example_node (Some (example_layer 1 None None 0)) None None
        [(1, Attached), (2, Relative), (3, Attached), (4, Attached), (5, Detached)],
      example_node (Some (example_layer 2 (Some 1) None 3)) (Some 0) None
        [(6, Attached), (7, Attached)],
      example_node (Some (example_layer 3 (Some 9) (Some 1) 1)) None (Some 0) [],
      example_node (Some (example_layer 4 (Some 1) None 2)) (Some 0) None [],
      example_node (Some (example_layer 5 (Some 1) None 1)) (Some 0) None [],
      example_node (Some (example_layer 6 (Some 1) (Some 9) 0)) (Some 0) None [],
      example_node (Some (example_layer 7 (Some 2) None 2)) (Some 1) None [],
      example_node (Some (example_layer 8 (Some 2) None 1)) (Some 1) None []]"

definition example_z_rank :: "node_ref \<Rightarrow> nat" where
  "example_z_rank k = (if k = 0 then 2 else if k = 1 then 1 else 0)"

text \<open>
  A visitor that refuses the paths marked as looping, returning false at each, and counts
  its calls.
\<close>

definition example_refusing_visitor :: "32 word \<Rightarrow> nat Visitor" where
  "example_refusing_visitor unassigned n p calls =
     (\<not> TraversalPath_hasRelZLoop unassigned p, Suc calls)"

section \<open>The walk: unfolding and induction\<close>

lemma walk_AtNode:
  "walk sel g visitor (AtNode h p s) =
     (if h < length g then
        (if \<not> fst (visitor (g ! h) p s) then Some (Some (p, snd (visitor (g ! h) p s)))
         else (case sel g (g ! h) of
                 None \<Rightarrow> Some None
               | Some cs \<Rightarrow> walk sel g visitor (AtChildren cs p (snd (visitor (g ! h) p s)))))
      else Some None)"
  by (subst walk.simps) (simp add: case_prod_beta)

lemma walk_Nil: "walk sel g visitor (AtChildren [] p s) = Some (Some (p, s))"
  by (subst walk.simps) simp

lemma walk_Cons:
  "walk sel g visitor (AtChildren ((child, childVariant) # rest) p s) =
     (if \<not> enters g p childVariant then walk sel g visitor (AtChildren rest p s)
      else
       (case layer_of g child of
          None \<Rightarrow> Some None
        | Some layer \<Rightarrow>
            Option.bind
              (walk sel g visitor
                 (AtNode child (snd (ScopedAddToTraversalPath_ctor p (id_layer layer) childVariant)) s))
              (\<lambda>r. case r of
                 None \<Rightarrow> Some None
               | Some (p2, s2) \<Rightarrow>
                   walk sel g visitor
                     (AtChildren rest
                        (ScopedAddToTraversalPath_dtor
                           (fst (ScopedAddToTraversalPath_ctor p (id_layer layer) childVariant)) p2)
                        s2))))"
  by (subst walk.simps) (simp add: case_prod_beta split: option.splits)

lemmas walk_raw = walk.raw_induct[rotated 1, consumes 1, case_names step]


lemma walk_induct [consumes 1, case_names Dangling Prune NoChildren Descend Done Skip NoLayer ChildFault Next]:
  assumes run: "walk sel g visitor c = Some r"
    and Dangling: "\<And>h p s. \<not> h < length g \<Longrightarrow> P (AtNode h p s) None"
    and Prune: "\<And>h p s. h < length g \<Longrightarrow> \<not> fst (visitor (g ! h) p s) \<Longrightarrow>
        P (AtNode h p s) (Some (p, snd (visitor (g ! h) p s)))"
    and NoChildren: "\<And>h p s. h < length g \<Longrightarrow> fst (visitor (g ! h) p s) \<Longrightarrow>
        sel g (g ! h) = None \<Longrightarrow> P (AtNode h p s) None"
    and Descend: "\<And>h p s cs r. h < length g \<Longrightarrow> fst (visitor (g ! h) p s) \<Longrightarrow>
        sel g (g ! h) = Some cs \<Longrightarrow>
        walk sel g visitor (AtChildren cs p (snd (visitor (g ! h) p s))) = Some r \<Longrightarrow>
        P (AtChildren cs p (snd (visitor (g ! h) p s))) r \<Longrightarrow> P (AtNode h p s) r"
    and Done: "\<And>p s. P (AtChildren [] p s) (Some (p, s))"
    and Skip: "\<And>child v rest p s r. \<not> enters g p v \<Longrightarrow>
        walk sel g visitor (AtChildren rest p s) = Some r \<Longrightarrow>
        P (AtChildren rest p s) r \<Longrightarrow> P (AtChildren ((child, v) # rest) p s) r"
    and NoLayer: "\<And>child v rest p s. enters g p v \<Longrightarrow> layer_of g child = None \<Longrightarrow>
        P (AtChildren ((child, v) # rest) p s) None"
    and ChildFault: "\<And>child v rest p s layer scope p1. enters g p v \<Longrightarrow>
        layer_of g child = Some layer \<Longrightarrow>
        ScopedAddToTraversalPath_ctor p (id_layer layer) v = (scope, p1) \<Longrightarrow>
        walk sel g visitor (AtNode child p1 s) = Some None \<Longrightarrow>
        P (AtNode child p1 s) None \<Longrightarrow>
        P (AtChildren ((child, v) # rest) p s) None"
    and Next: "\<And>child v rest p s layer scope p1 p2 s2 r. enters g p v \<Longrightarrow>
        layer_of g child = Some layer \<Longrightarrow>
        ScopedAddToTraversalPath_ctor p (id_layer layer) v = (scope, p1) \<Longrightarrow>
        walk sel g visitor (AtNode child p1 s) = Some (Some (p2, s2)) \<Longrightarrow>
        P (AtNode child p1 s) (Some (p2, s2)) \<Longrightarrow>
        walk sel g visitor (AtChildren rest (ScopedAddToTraversalPath_dtor scope p2) s2) = Some r \<Longrightarrow>
        P (AtChildren rest (ScopedAddToTraversalPath_dtor scope p2) s2) r \<Longrightarrow>
        P (AtChildren ((child, v) # rest) p s) r"
  shows "P c r"
proof -
  have "walk sel' g' visitor' c = Some r \<Longrightarrow>
        sel' = sel \<and> g' = g \<and> visitor' = visitor \<longrightarrow> walk sel g visitor c = Some r \<and> P c r"
    for sel' g' visitor'
  proof (induction sel' g' visitor' c r rule: walk_raw)
    case (step f sel' g' visitor' c r)
    show ?case
    proof (intro impI, elim conjE)
      assume eqs: "sel' = sel" "g' = g" "visitor' = visitor"
      have IH: "walk sel g visitor c' = Some y \<and> P c' y" if "f sel g visitor c' = Some y" for c' y
        using step.IH[OF that] by simp
      show "walk sel g visitor c = Some r \<and> P c r"
      proof (cases c)
        case (AtNode h p s)
        show ?thesis
        proof (cases "h < length g")
          case False
          with step.hyps AtNode eqs have "r = None" by simp
          with False AtNode Dangling show ?thesis by (simp add: walk_AtNode)
        next
          case inside: True
          show ?thesis
          proof (cases "fst (visitor (g ! h) p s)")
            case False
            with step.hyps AtNode eqs inside have "r = Some (p, snd (visitor (g ! h) p s))"
              by (auto split: prod.splits)
            with False AtNode inside Prune show ?thesis by (simp add: walk_AtNode)
          next
            case True
            show ?thesis
            proof (cases "sel g (g ! h)")
              case None
              with True step.hyps AtNode eqs inside have "r = None" by (auto split: prod.splits)
              with True None AtNode inside NoChildren show ?thesis by (simp add: walk_AtNode)
            next
              case (Some cs)
              with True step.hyps AtNode eqs inside
              have "f sel g visitor (AtChildren cs p (snd (visitor (g ! h) p s))) = Some r"
                by (auto split: prod.splits)
              from IH[OF this] True Some AtNode inside Descend show ?thesis
                by (simp add: walk_AtNode)
            qed
          qed
        qed
      next
        case (AtChildren cs p s)
        show ?thesis
        proof (cases cs)
          case Nil
          with step.hyps AtChildren have "r = Some (p, s)" by simp
          with Nil AtChildren Done show ?thesis by (simp add: walk_Nil)
        next
          case (Cons e rest)
          obtain child v where e: "e = (child, v)" by (cases e)
          show ?thesis
          proof (cases "enters g p v")
            case False
            with step.hyps AtChildren Cons e eqs
            have "f sel g visitor (AtChildren rest p s) = Some r" by simp
            from IH[OF this] False AtChildren Cons e Skip show ?thesis
              by (simp add: walk_Cons)
          next
            case ent: True
            show ?thesis
            proof (cases "layer_of g child")
              case None
              with step.hyps AtChildren Cons e eqs ent have "r = None" by simp
              with None AtChildren Cons e ent NoLayer show ?thesis by (simp add: walk_Cons)
            next
              case (Some layer)
              obtain scope p1 where sc: "ScopedAddToTraversalPath_ctor p (id_layer layer) v = (scope, p1)"
                by (cases "ScopedAddToTraversalPath_ctor p (id_layer layer) v")
              from step.hyps AtChildren Cons e eqs Some sc ent
              obtain r1 where r1: "f sel g visitor (AtNode child p1 s) = Some r1"
                and rest: "(case r1 of None \<Rightarrow> Some None
                            | Some (p2, s2) \<Rightarrow> f sel g visitor
                                 (AtChildren rest (ScopedAddToTraversalPath_dtor scope p2) s2)) = Some r"
                by (auto simp: bind_eq_Some_conv)
              note sub = IH[OF r1]
              show ?thesis
              proof (cases r1)
                case None
                with rest have "r = None" by simp
                with sub None Some sc AtChildren Cons e ent ChildFault[OF ent Some sc] show ?thesis
                  by (simp add: walk_Cons)
              next
                case (Some ps)
                obtain p2 s2 where ps: "ps = (p2, s2)" by (cases ps)
                with rest Some
                have "f sel g visitor (AtChildren rest (ScopedAddToTraversalPath_dtor scope p2) s2) = Some r"
                  by simp
                note sub2 = IH[OF this]
                from sub Some ps have w1: "walk sel g visitor (AtNode child p1 s) = Some (Some (p2, s2))"
                  and P1: "P (AtNode child p1 s) (Some (p2, s2))" by simp_all
                from Next[OF ent \<open>layer_of g child = Some layer\<close> sc w1 P1 conjunct1[OF sub2] conjunct2[OF sub2]]
                have "P (AtChildren ((child, v) # rest) p s) r" .
                with w1 sub2 \<open>layer_of g child = Some layer\<close> sc AtChildren Cons e ent show ?thesis
                  by (simp add: walk_Cons)
              qed
            qed
          qed
        qed
      qed
    qed
  qed
  with run show ?thesis by simp
qed

lemma same_frame_refl [simp]: "same_frame p p"
  by (simp add: same_frame_def)

lemma same_frame_fields:
  "same_frame p q \<longleftrightarrow> id_path q = id_path p \<and> variant q = variant p
     \<and> mirrorRootIds q = mirrorRootIds p \<and> relativeRootIds q = relativeRootIds p"
  by (cases p, cases q) (auto simp: same_frame_def)

lemma same_frame_trans: "same_frame p q \<Longrightarrow> same_frame q r \<Longrightarrow> same_frame p r"
  by (simp add: same_frame_fields)

lemma scoped_restore:
  assumes "same_frame (snd (ScopedAddToTraversalPath_ctor p layerId v)) p2"
  shows "same_frame p (ScopedAddToTraversalPath_dtor (fst (ScopedAddToTraversalPath_ctor p layerId v)) p2)"
  using assms
  by (cases v)
     (auto simp: same_frame_fields ScopedAddToTraversalPath_ctor_def
                 ScopedAddToTraversalPath_dtor_def Let_def)

lemma walk_restores:
  assumes "walk sel g visitor c = Some r"
  shows "\<forall>p' s'. r = Some (p', s') \<longrightarrow> same_frame (call_path c) p'"
  using assms
proof (induction rule: walk_induct)
  case (Next child v rest p s layer scope p1 p2 s2 r)
  from Next.IH(1) have "same_frame p1 p2" by simp
  with Next.hyps(3) scoped_restore[of p "id_layer layer" v p2]
  have "same_frame p (ScopedAddToTraversalPath_dtor scope p2)" by simp
  with Next.IH(2) show ?case by (auto intro: same_frame_trans)
qed auto


section \<open>Termination\<close>

lemma ctor_not_relative:
  "v \<noteq> Relative \<Longrightarrow>
     relativeRootIds (snd (ScopedAddToTraversalPath_ctor p i v)) = relativeRootIds p
     \<and> invalidRelativeRootId (snd (ScopedAddToTraversalPath_ctor p i v)) = invalidRelativeRootId p"
  by (simp add: ScopedAddToTraversalPath_ctor_def Let_def)

lemma ctor_relative:
  "relativeRootIds (snd (ScopedAddToTraversalPath_ctor p i Relative)) = relativeRootIds p @ [i]"
  by (simp add: ScopedAddToTraversalPath_ctor_def Let_def)



lemma enters_same_frame: "same_frame p q \<Longrightarrow> enters g q v = enters g p v"
  by (simp add: enters_def same_frame_fields)

lemma layer_of_inside: "layer_of g c = Some layer \<Longrightarrow> c < length g"
  by (simp add: layer_of_def split: if_splits)

lemma hierarchy_ok_edge:
  assumes "hierarchy_ok g rk" "h < length g" "(c, v) \<in> set (mChildren (g ! h))"
  shows "layer_of g c \<noteq> None \<and> (v = Relative \<or> rk c < rk h)"
  using assms by (fastforce simp: hierarchy_ok_def list_all_iff)

lemma walk_children_terminates:
  assumes sub: "\<And>c v s layer q. (c, v) \<in> set cs \<Longrightarrow> enters g p v \<Longrightarrow>
            layer_of g c = Some layer \<Longrightarrow> same_frame p q \<Longrightarrow>
            \<exists>r. walk sel g visitor
                   (AtNode c (snd (ScopedAddToTraversalPath_ctor q (id_layer layer) v)) s) = Some (Some r)"
    and layers: "\<And>c v. (c, v) \<in> set cs \<Longrightarrow> layer_of g c \<noteq> None"
    and frame: "same_frame p q"
  shows "\<exists>r. walk sel g visitor (AtChildren cs q s) = Some (Some r)"
  using assms
proof (induction cs arbitrary: s q)
  case Nil
  show ?case by (simp add: walk_Nil)
next
  case (Cons e rest)
  obtain c v where e: "e = (c, v)" by (cases e)
  have IH: "\<exists>r. walk sel g visitor (AtChildren rest q' s') = Some (Some r)"
    if "same_frame p q'" for q' s'
  proof (rule Cons.IH[OF _ _ that])
    show "\<exists>r. walk sel g visitor
            (AtNode c' (snd (ScopedAddToTraversalPath_ctor q'' (id_layer layer') v')) s'') = Some (Some r)"
      if "(c', v') \<in> set rest" "enters g p v'" "layer_of g c' = Some layer'" "same_frame p q''"
      for c' v' s'' layer' q''
      using Cons.prems(1)[of c' v' layer' q'' s''] that by simp
    show "layer_of g c' \<noteq> None" if "(c', v') \<in> set rest" for c' v'
      using Cons.prems(2)[of c' v'] that by simp
  qed
  show ?case
  proof (cases "enters g p v")
    case False
    with enters_same_frame[OF Cons.prems(3)] IH[OF Cons.prems(3)] e show ?thesis
      by (simp add: walk_Cons)
  next
    case True
    from Cons.prems(2)[of c v] e obtain layer where layer: "layer_of g c = Some layer" by auto
    let ?sc = "ScopedAddToTraversalPath_ctor q (id_layer layer) v"
    from Cons.prems(1)[of c v layer q s] e layer True Cons.prems(3)
    obtain p2 s2 where run: "walk sel g visitor (AtNode c (snd ?sc) s) = Some (Some (p2, s2))"
      by auto
    from walk_restores[OF run] have "same_frame (snd ?sc) p2" by simp
    from scoped_restore[OF this] Cons.prems(3)
    have "same_frame p (ScopedAddToTraversalPath_dtor (fst ?sc) p2)"
      by (auto intro: same_frame_trans)
    from IH[OF this] run layer e True enters_same_frame[OF Cons.prems(3)] show ?thesis
      by (simp add: walk_Cons)
  qed
qed

lemma walk_terminates:
  fixes rk :: "node_ref \<Rightarrow> nat"
  assumes ok: "hierarchy_ok g rk"
    and sel: "\<And>h. h < length g \<Longrightarrow> \<exists>cs. sel g (g ! h) = Some cs \<and> set cs \<subseteq> set (mChildren (g ! h))"
    and inside: "h < length g"
  shows "\<exists>r. walk sel g visitor (AtNode h p s) = Some (Some r)"
proof -
  define m where "m q = length g - length (relativeRootIds q)" for q :: TraversalPath
  have "\<forall>h p s. m p = k \<and> rk h = j \<and> h < length g
          \<longrightarrow> (\<exists>r. walk sel g visitor (AtNode h p s) = Some (Some r))"
    for k j
  proof (induction k arbitrary: j rule: less_induct)
    case (less k)
    note outer = less.IH
    show ?case
    proof (induction j rule: less_induct)
      case (less j)
      note inner = less.IH
      show ?case
      proof (intro allI impI, elim conjE)
        fix h p s
        assume mk: "m p = k" and rj: "rk h = j" and h: "h < length g"
        show "\<exists>r. walk sel g visitor (AtNode h p s) = Some (Some r)"
        proof (cases "fst (visitor (g ! h) p s)")
          case False
          with h show ?thesis by (simp add: walk_AtNode)
        next
          case True
          from sel[OF h] obtain cs where cs: "sel g (g ! h) = Some cs"
            and sub: "set cs \<subseteq> set (mChildren (g ! h))" by auto
          have "\<exists>r. walk sel g visitor (AtChildren cs p s') = Some (Some r)" for s'
          proof (rule walk_children_terminates[where p = p])
            show "same_frame p p" by simp
          next
            fix c v
            assume "(c, v) \<in> set cs"
            with sub hierarchy_ok_edge[OF ok h] show "layer_of g c \<noteq> None" by blast
          next
            fix c v t layer q
            assume cv: "(c, v) \<in> set cs" and ent: "enters g p v"
              and layer: "layer_of g c = Some layer" and fr: "same_frame p q"
            from cv sub have edge: "(c, v) \<in> set (mChildren (g ! h))" by blast
            from layer have c: "c < length g" by (rule layer_of_inside)
            from fr have mq: "m q = k" using mk by (simp add: m_def same_frame_fields)
            let ?p1 = "snd (ScopedAddToTraversalPath_ctor q (id_layer layer) v)"
            show "\<exists>r. walk sel g visitor (AtNode c ?p1 t) = Some (Some r)"
            proof (cases "v = Relative")
              case False
              with ctor_not_relative[of v q "id_layer layer"] have "m ?p1 = k"
                using mq by (simp add: m_def)
              moreover from hierarchy_ok_edge[OF ok h edge] False rj have "rk c < j" by simp
              ultimately show ?thesis using inner c by blast
            next
              case True
              with ent have "length (relativeRootIds p) < length g" by (simp add: enters_def)
              with fr have "length (relativeRootIds q) < length g" by (simp add: same_frame_fields)
              with True ctor_relative[of q "id_layer layer"] mq have "m ?p1 < k"
                by (simp add: m_def)
              with outer c show ?thesis by blast
            qed
          qed
          with True cs h show ?thesis by (simp add: walk_AtNode)
        qed
      qed
    qed
  qed
  with inside show ?thesis by blast
qed

lemma all_children_subset:
  "\<exists>cs. all_children g n = Some cs \<and> set cs \<subseteq> set (mChildren n)"
  by (simp add: all_children_def)

lemma z_order_children_subset:
  assumes "hierarchy_ok g rk" "h < length g"
  shows "\<exists>cs. z_order_children g (g ! h) = Some cs \<and> set cs \<subseteq> set (mChildren (g ! h))"
proof -
  from hierarchy_ok_edge[OF assms]
  have "list_all (\<lambda>e. layer_of g (fst e) \<noteq> None) (mChildren (g ! h))"
    by (auto simp: list_all_iff)
  then show ?thesis
    by (auto simp: z_order_children_def sortChildrenByZOrder_def)
qed

lemma traverse_returns:
  assumes "hierarchy_ok g rk" "h < length g"
  shows "\<exists>r. traverse g visitor p h s = Some (Some r)"
  unfolding traverse_def
  by (rule walk_terminates[where sel = all_children, OF assms(1) _ assms(2)])
     (rule all_children_subset)

lemma traverseInZOrder_returns:
  assumes "hierarchy_ok g rk" "h < length g"
  shows "\<exists>r. traverseInZOrder g visitor p h s = Some (Some r)"
  unfolding traverseInZOrder_def
  by (rule walk_terminates[where sel = z_order_children, OF assms(1) _ assms(2)])
     (rule z_order_children_subset[OF assms(1)])



lemma record_depth:
  assumes "walk sel g recording_visitor c = Some r"
  shows "\<forall>q L. r = Some (q, L) \<longrightarrow> length g \<le> b
           \<longrightarrow> length (relativeRootIds (call_path c)) \<le> b
           \<longrightarrow> (\<forall>e\<in>set (call_state c). length (relativeRootIds (snd e)) \<le> b)
           \<longrightarrow> (\<forall>e\<in>set L. length (relativeRootIds (snd e)) \<le> b)"
  using assms
proof (induction rule: walk_induct)
  case (Dangling h p s)
  show ?case by simp
next
  case (Prune h p s)
  then show ?case by (simp add: recording_visitor_def)
next
  case (NoChildren h p s)
  show ?case by simp
next
  case (Descend h p s cs r)
  have "snd (recording_visitor (g ! h) p s) = s @ [(g ! h, p)]"
    by (simp add: recording_visitor_def)
  with Descend.IH show ?case by fastforce
next
  case (Done p s)
  show ?case by simp
next
  case (Skip child v rest p s r)
  then show ?case by fastforce
next
  case (NoLayer child v rest p s)
  show ?case by simp
next
  case (ChildFault child v rest p s layer scope p1)
  show ?case by simp
next
  case (Next child v rest p s layer scope p1 p2 s2 r)
  show ?case
  proof (intro allI impI)
    fix q L
    assume r: "r = Some (q, L)" and b: "length g \<le> b"
      and p: "length (relativeRootIds (call_path (AtChildren ((child, v) # rest) p s))) \<le> b"
      and s: "\<forall>e\<in>set (call_state (AtChildren ((child, v) # rest) p s)).
                 length (relativeRootIds (snd e)) \<le> b"
    have p1: "p1 = snd (ScopedAddToTraversalPath_ctor p (id_layer layer) v)"
      and scope: "scope = fst (ScopedAddToTraversalPath_ctor p (id_layer layer) v)"
      using Next.hyps(3) by simp_all
    have "length (relativeRootIds p1) \<le> b"
    proof (cases "v = Relative")
      case True
      with Next.hyps(1) b have "length (relativeRootIds p) < b" by (simp add: enters_def)
      with True show ?thesis unfolding p1 by (simp add: ctor_relative)
    next
      case False
      with p show ?thesis unfolding p1 by (simp add: ctor_not_relative)
    qed
    with Next.IH(1) b s have s2: "\<forall>e\<in>set s2. length (relativeRootIds (snd e)) \<le> b" by simp
    from walk_restores[OF Next.hyps(4)] have "same_frame p1 p2" by simp
    from scoped_restore[OF this[unfolded p1]]
    have "same_frame p (ScopedAddToTraversalPath_dtor scope p2)" unfolding scope .
    with p have "length (relativeRootIds (ScopedAddToTraversalPath_dtor scope p2)) \<le> b"
      by (simp add: same_frame_fields)
    with Next.IH(2) r b s2 show "\<forall>e\<in>set L. length (relativeRootIds (snd e)) \<le> b" by simp
  qed
qed

lemmas example_eval =
  walk_AtNode walk_Nil walk_Cons all_children_def z_order_children_def sortChildrenByZOrder_def
  child_z_def layer_of_def enters_def example_node_def example_layer_def example_root_path_def
  example_unassigned_def ScopedAddToTraversalPath_ctor_def ScopedAddToTraversalPath_dtor_def
  LayerHierarchy_ctor_def Let_def

lemma example_loop_graph_ok: "hierarchy_ok example_loop_graph example_loop_rank"
  by (simp add: hierarchy_ok_def example_loop_graph_def example_loop_rank_def example_node_def
        layer_of_def upt_conv_Cons)


section \<open>What the loop detection finds\<close>

lemma visitor_continues [simp]: "fst (hasRelZLoop_visitor unassigned n p f) = True"
  by (simp add: hasRelZLoop_visitor_def)


















section \<open>What the recording visitor sees\<close>

lemma recording_visitor_fst: "fst (recording_visitor n p L) = True"
  by (simp add: recording_visitor_def)

lemma recording_visitor_snd: "snd (recording_visitor n p L) = L @ [(n, p)]"
  by (simp add: recording_visitor_def)

lemmas recording_visitor_simps = recording_visitor_fst recording_visitor_snd

lemma record_shift:
  assumes "walk sel g recording_visitor c = Some r"
  shows "\<forall>q L. r = Some (q, L) \<longrightarrow>
          (\<exists>X. L = call_state c @ X
             \<and> (\<forall>L1. walk sel g recording_visitor (with_state c L1) = Some (Some (q, L1 @ X))))"
  using assms
proof (induction rule: walk_induct)
  case (Dangling h p s)
  show ?case by simp
next
  case (Prune h p s)
  then show ?case by (simp add: recording_visitor_simps)
next
  case (NoChildren h p s)
  show ?case by simp
next
  case (Descend h p s cs r)
  show ?case
  proof (intro allI impI)
    fix q L assume "r = Some (q, L)"
    with Descend.IH obtain X where X: "L = (s @ [(g ! h, p)]) @ X"
      and all: "\<And>L1. walk sel g recording_visitor (AtChildren cs p L1) = Some (Some (q, L1 @ X))"
      by (auto simp: recording_visitor_simps)
    have "walk sel g recording_visitor (AtNode h p L1) = Some (Some (q, L1 @ (g ! h, p) # X))"
      for L1
      using all[of "L1 @ [(g ! h, p)]"] Descend.hyps(1,3)
      by (simp add: walk_AtNode recording_visitor_simps)
    with X show "\<exists>X. L = call_state (AtNode h p s) @ X
        \<and> (\<forall>L1. walk sel g recording_visitor (with_state (AtNode h p s) L1)
               = Some (Some (q, L1 @ X)))"
      by (intro exI[of _ "(g ! h, p) # X"]) simp
  qed
next
  case (Done p s)
  show ?case by (simp add: walk_Nil)
next
  case (Skip child v rest p s r)
  then show ?case by (simp add: walk_Cons)
next
  case (NoLayer child v rest p s)
  show ?case by simp
next
  case (ChildFault child v rest p s layer scope p1)
  show ?case by simp
next
  case (Next child v rest p s layer scope p1 p2 s2 r)
  show ?case
  proof (intro allI impI)
    fix q L assume r: "r = Some (q, L)"
    from Next.IH(1) obtain X1 where X1: "s2 = s @ X1"
      and all1: "\<And>L1. walk sel g recording_visitor (AtNode child p1 L1) = Some (Some (p2, L1 @ X1))"
      by auto
    from Next.IH(2) r obtain X2 where X2: "L = s2 @ X2"
      and all2: "\<And>L1. walk sel g recording_visitor
                   (AtChildren rest (ScopedAddToTraversalPath_dtor scope p2) L1)
                 = Some (Some (q, L1 @ X2))"
      by auto
    have "walk sel g recording_visitor (AtChildren ((child, v) # rest) p L1)
        = Some (Some (q, L1 @ X1 @ X2))" for L1
      using all1[of L1] all2[of "L1 @ X1"] Next.hyps(1,2,3)
      by (simp add: walk_Cons)
    with X1 X2 show "\<exists>X. L = call_state (AtChildren ((child, v) # rest) p s) @ X
        \<and> (\<forall>L1. walk sel g recording_visitor
                 (with_state (AtChildren ((child, v) # rest) p s) L1) = Some (Some (q, L1 @ X)))"
      by (intro exI[of _ "X1 @ X2"]) simp
  qed
qed

lemma record_blocks:
  assumes "walk sel g recording_visitor (AtChildren cs q L0) = Some (Some (q', L))"
    and "same_frame p q"
  shows "\<exists>blocks. L = L0 @ concat blocks
      \<and> list_all2 (\<lambda>e block. \<exists>m layer q2 rest.
             layer_of g (fst e) = Some layer
           \<and> block = (g ! fst e,
                       snd (ScopedAddToTraversalPath_ctor (p\<lparr>invalidRelativeRootId := m\<rparr>)
                              (id_layer layer) (snd e))) # rest
           \<and> walk sel g recording_visitor
               (AtNode (fst e)
                  (snd (ScopedAddToTraversalPath_ctor (p\<lparr>invalidRelativeRootId := m\<rparr>)
                          (id_layer layer) (snd e))) [])
               = Some (Some (q2, block)))
          (filter (\<lambda>e. enters g p (snd e)) cs) blocks"
  using assms
proof (induction cs arbitrary: q L0)
  case Nil
  then show ?case by (simp add: walk_Nil)
next
  case (Cons e rest)
  obtain c v where e: "e = (c, v)" by (cases e)
  note ent = enters_same_frame[OF Cons.prems(2), of g v]
  show ?case
  proof (cases "enters g p v")
    case False
    with Cons.prems(1) e ent
    have "walk sel g recording_visitor (AtChildren rest q L0) = Some (Some (q', L))"
      by (simp add: walk_Cons)
    from Cons.IH[OF this Cons.prems(2)] False e show ?thesis by simp
  next
    case True
    with Cons.prems(1) e ent obtain layer where layer: "layer_of g c = Some layer"
      by (cases "layer_of g c") (auto simp: walk_Cons)
    let ?sc = "ScopedAddToTraversalPath_ctor q (id_layer layer) v"
    from Cons.prems(1) e layer True ent obtain p2 L1 where
      run: "walk sel g recording_visitor (AtNode c (snd ?sc) L0) = Some (Some (p2, L1))"
      and rest: "walk sel g recording_visitor
                   (AtChildren rest (ScopedAddToTraversalPath_dtor (fst ?sc) p2) L1)
                 = Some (Some (q', L))"
      by (auto simp: walk_Cons bind_eq_Some_conv split: option.splits)
    from walk_restores[OF run] have "same_frame (snd ?sc) p2" by simp
    from scoped_restore[OF this] Cons.prems(2)
    have fr': "same_frame p (ScopedAddToTraversalPath_dtor (fst ?sc) p2)"
      by (auto intro: same_frame_trans)
    from Cons.IH[OF rest fr'] obtain blocks where blocks: "L = L1 @ concat blocks"
      "list_all2 (\<lambda>e block. \<exists>m layer q2 rest.
             layer_of g (fst e) = Some layer
           \<and> block = (g ! fst e,
                       snd (ScopedAddToTraversalPath_ctor (p\<lparr>invalidRelativeRootId := m\<rparr>)
                              (id_layer layer) (snd e))) # rest
           \<and> walk sel g recording_visitor
               (AtNode (fst e)
                  (snd (ScopedAddToTraversalPath_ctor (p\<lparr>invalidRelativeRootId := m\<rparr>)
                          (id_layer layer) (snd e))) [])
               = Some (Some (q2, block)))
          (filter (\<lambda>e. enters g p (snd e)) rest) blocks" by blast
    from record_shift[OF run] obtain X where X: "L1 = L0 @ X"
      and X0: "walk sel g recording_visitor (AtNode c (snd ?sc) []) = Some (Some (p2, X))"
      by fastforce
    from X0 have c: "c < length g" by (auto simp: walk_AtNode split: if_splits)
    with X0 have "walk sel g recording_visitor
        (AtChildren (the (sel g (g ! c))) (snd ?sc) [(g ! c, snd ?sc)]) = Some (Some (p2, X))"
      by (cases "sel g (g ! c)") (auto simp: walk_AtNode recording_visitor_simps)
    from record_shift[OF this] obtain X' where X': "X = (g ! c, snd ?sc) # X'" by fastforce
    from Cons.prems(2) have q: "q = p\<lparr>invalidRelativeRootId := invalidRelativeRootId q\<rparr>"
      by (simp add: same_frame_def)
    have head: "\<exists>m layer q2 rest.
             layer_of g (fst e) = Some layer
           \<and> X = (g ! fst e,
                       snd (ScopedAddToTraversalPath_ctor (p\<lparr>invalidRelativeRootId := m\<rparr>)
                              (id_layer layer) (snd e))) # rest
           \<and> walk sel g recording_visitor
               (AtNode (fst e)
                  (snd (ScopedAddToTraversalPath_ctor (p\<lparr>invalidRelativeRootId := m\<rparr>)
                          (id_layer layer) (snd e))) [])
               = Some (Some (q2, X))"
      apply (rule exI[of _ "invalidRelativeRootId q"])
      apply (rule exI[of _ layer])
      apply (rule exI[of _ p2])
      apply (rule exI[of _ X'])
      using layer X' X0 e q by simp
    have "L = L0 @ concat (X # blocks)" using X blocks(1) by simp
    moreover from True e head blocks(2)
    have "list_all2 (\<lambda>e block. \<exists>m layer q2 rest.
             layer_of g (fst e) = Some layer
           \<and> block = (g ! fst e,
                       snd (ScopedAddToTraversalPath_ctor (p\<lparr>invalidRelativeRootId := m\<rparr>)
                              (id_layer layer) (snd e))) # rest
           \<and> walk sel g recording_visitor
               (AtNode (fst e)
                  (snd (ScopedAddToTraversalPath_ctor (p\<lparr>invalidRelativeRootId := m\<rparr>)
                          (id_layer layer) (snd e))) [])
               = Some (Some (q2, block)))
          (filter (\<lambda>e. enters g p (snd e)) (e # rest)) (X # blocks)" by simp
    ultimately show ?thesis by blast
  qed
qed

lemma sortChildrenByZOrder_stable:
  assumes "sortChildrenByZOrder g n = Some n'"
  shows "mChildren n' = sort_key (child_z g) (mChildren n)
       \<and> sorted (map (child_z g) (mChildren n'))
       \<and> (\<forall>k. filter (\<lambda>e. child_z g e = k) (mChildren n')
              = filter (\<lambda>e. child_z g e = k) (mChildren n))"
  using assms
  by (auto simp: sortChildrenByZOrder_def sort_key_stable split: if_splits)

lemma example_z_graph_ok: "hierarchy_ok example_z_graph example_z_rank"
  by (simp add: hierarchy_ok_def example_z_graph_def example_z_rank_def example_node_def
        layer_of_def upt_conv_Cons)













section \<open>The first relative root met twice\<close>





section \<open>Properties decided by the header\<close>

text \<open>
  C8. Two traversal paths compare equal exactly when their node ids are equal and their
  mirror-root stacks are equal. The relationship kind, the relative-root stack and the
  duplicate-relative-root marker take no part: replacing them on either side by any other
  values leaves the comparison unchanged.
\<close>

theorem TraversalPath_eq_iff:
  "(TraversalPath_eq p q \<longleftrightarrow> id_path p = id_path q \<and> mirrorRootIds p = mirrorRootIds q)
   \<and> TraversalPath_eq
        (p\<lparr>variant := v, relativeRootIds := rs, invalidRelativeRootId := m\<rparr>)
        (q\<lparr>variant := v', relativeRootIds := rs', invalidRelativeRootId := m'\<rparr>)
      = TraversalPath_eq p q"
  by (simp add: TraversalPath_eq_def)

text \<open>
  C10. A node holds at most one structural parent back-reference and at most one relative
  parent back-reference, whatever the graph \<open>g\<close> around it and however many child lists
  name the node \<open>k\<close>: each is one nullable pointer. A node that has just been created
  holds neither.
\<close>

theorem LayerHierarchy_parents_at_most_one:
  "card (set_option (mParent (g k))) \<le> 1
   \<and> card (set_option (mRelativeParent (g k))) \<le> 1
   \<and> mParent (LayerHierarchy_ctor layer) = None
   \<and> mRelativeParent (LayerHierarchy_ctor layer) = None"
proof -
  have "card (set_option x) \<le> 1" for x :: "node_ref option"
    by (cases x) simp_all
  then show ?thesis
    by (simp add: LayerHierarchy_ctor_def)
qed


section \<open>Properties of the traversals\<close>

text \<open>
  C5. On every hierarchy (every child pointer leads to a node with a layer, the edges that
  are not \<open>Relative\<close> form no cycle, the \<open>Relative\<close> edges are free to form loops)
  \<^verbatim>\<open>traverse\<close> and \<^verbatim>\<open>traverseInZOrder\<close> return, without a fault, for every
  visitor, from every state of the visitor and every root path. No path that a walk hands
  to a visitor holds more relative roots than the arena has nodes (or than the root path
  held already), and the scoped push of a \<open>Relative\<close> id appends the id to the
  relative-root stack whether or not the id is on the stack already.
\<close>

theorem traversals_terminate:
  assumes "hierarchy_ok g rk" and "h < length g"
  shows "(\<exists>r. traverse g visitor root_path h s = Some (Some r))
       \<and> (\<exists>r. traverseInZOrder g visitor root_path h s = Some (Some r))
       \<and> (\<exists>p' visits. traverse g recording_visitor root_path h [] = Some (Some (p', visits))
             \<and> list_all (\<lambda>e. length (relativeRootIds (snd e))
                                \<le> max (length g) (length (relativeRootIds root_path))) visits)
       \<and> relativeRootIds (snd (ScopedAddToTraversalPath_ctor p layerId Relative))
           = relativeRootIds p @ [layerId]"
proof -
  from traverse_returns[OF assms] obtain p' visits where
    run: "traverse g recording_visitor root_path h [] = Some (Some (p', visits))" by fastforce
  from record_depth[OF run[unfolded traverse_def],
      of "max (length g) (length (relativeRootIds root_path))"]
  have "list_all (\<lambda>e. length (relativeRootIds (snd e))
                                \<le> max (length g) (length (relativeRootIds root_path))) visits"
    by (simp add: list_all_iff)
  with run traverse_returns[OF assms, of visitor root_path s]
    traverseInZOrder_returns[OF assms, of visitor root_path s]
  show ?thesis by (simp add: ctor_relative)
qed

text \<open>
  The hierarchy with two layers relatively parented to each other: both traversals return
  for the visitor that refuses looping paths, and no path recorded by \<^verbatim>\<open>traverse\<close>
  holds more than six relative roots, the number of its nodes.
\<close>

theorem traversals_terminate_witness:
  "hierarchy_ok example_loop_graph example_loop_rank \<and> 0 < length example_loop_graph
   \<and> (\<exists>r. traverse example_loop_graph (example_refusing_visitor example_unassigned)
             example_root_path 0 0 = Some (Some r))
   \<and> (\<exists>r. traverseInZOrder example_loop_graph (example_refusing_visitor example_unassigned)
             example_root_path 0 0 = Some (Some r))
   \<and> (\<exists>p' visits. traverse example_loop_graph recording_visitor example_root_path 0 []
             = Some (Some (p', visits))
         \<and> list_all (\<lambda>e. length (relativeRootIds (snd e)) \<le> 6) visits)"
proof -
  have len: "length example_loop_graph = 6" by (simp add: example_loop_graph_def)
  have bound: "max (length example_loop_graph) (length (relativeRootIds example_root_path)) = 6"
    by (simp add: len example_root_path_def)
  from traversals_terminate[of example_loop_graph example_loop_rank 0
          "example_refusing_visitor example_unassigned" example_root_path 0, unfolded bound]
        example_loop_graph_ok len
  show ?thesis by simp
qed









text \<open>
  C7. When \<^verbatim>\<open>traverseInZOrder\<close> with the recording visitor returns, from any node
  \<open>h\<close>, any path and any earlier record: \<^verbatim>\<open>sortChildrenByZOrder\<close> leaves the
  children of \<open>h\<close> in ascending order of the z values of their layers, the children with
  the same z value in the order they had; and what the traversal has added to the record
  is the visit of \<open>h\<close> followed by one block for each child that is not \<open>Detached\<close>
  (and is entered within the depth bound), in that sorted order, where the block of a
  child begins with the visit of the child at the path pushed for it and is the record of
  \<^verbatim>\<open>traverseInZOrder\<close> from that child. So the same holds in turn at every node
  below \<open>h\<close>. On every hierarchy the call does return.
\<close>

theorem traverseInZOrder_visits_in_z_order:
  "(traverseInZOrder g recording_visitor p h before = Some (Some (p', visits))
      \<longrightarrow> (\<exists>n' blocks.
            sortChildrenByZOrder g (g ! h) = Some n'
          \<and> list_all (\<lambda>e. \<exists>layer. layer_of g (fst e) = Some layer \<and> child_z g e = z layer)
               (mChildren n')
          \<and> sorted (map (child_z g) (mChildren n'))
          \<and> (\<forall>k. filter (\<lambda>e. child_z g e = k) (mChildren n')
                 = filter (\<lambda>e. child_z g e = k) (mChildren (g ! h)))
          \<and> visits = before @ (g ! h, p) # concat blocks
          \<and> list_all2 (\<lambda>e block. \<exists>m layer q rest.
                 layer_of g (fst e) = Some layer
               \<and> block = (g ! fst e,
                           snd (ScopedAddToTraversalPath_ctor (p\<lparr>invalidRelativeRootId := m\<rparr>)
                                  (id_layer layer) (snd e))) # rest
               \<and> traverseInZOrder g recording_visitor
                     (snd (ScopedAddToTraversalPath_ctor (p\<lparr>invalidRelativeRootId := m\<rparr>)
                             (id_layer layer) (snd e)))
                     (fst e) [] = Some (Some (q, block)))
              (filter (\<lambda>e. snd e \<noteq> Detached \<and> enters g p (snd e)) (mChildren n')) blocks))
   \<and> (hierarchy_ok g rk \<and> h < length g
      \<longrightarrow> (\<exists>r. traverseInZOrder g recording_visitor p h before = Some (Some r)))"
proof -
  have part: "\<exists>n' blocks.
            sortChildrenByZOrder g (g ! h) = Some n'
          \<and> list_all (\<lambda>e. \<exists>layer. layer_of g (fst e) = Some layer \<and> child_z g e = z layer)
               (mChildren n')
          \<and> sorted (map (child_z g) (mChildren n'))
          \<and> (\<forall>k. filter (\<lambda>e. child_z g e = k) (mChildren n')
                 = filter (\<lambda>e. child_z g e = k) (mChildren (g ! h)))
          \<and> visits = before @ (g ! h, p) # concat blocks
          \<and> list_all2 (\<lambda>e block. \<exists>m layer q rest.
                 layer_of g (fst e) = Some layer
               \<and> block = (g ! fst e,
                           snd (ScopedAddToTraversalPath_ctor (p\<lparr>invalidRelativeRootId := m\<rparr>)
                                  (id_layer layer) (snd e))) # rest
               \<and> traverseInZOrder g recording_visitor
                     (snd (ScopedAddToTraversalPath_ctor (p\<lparr>invalidRelativeRootId := m\<rparr>)
                             (id_layer layer) (snd e)))
                     (fst e) [] = Some (Some (q, block)))
              (filter (\<lambda>e. snd e \<noteq> Detached \<and> enters g p (snd e)) (mChildren n')) blocks"
    if run: "traverseInZOrder g recording_visitor p h before = Some (Some (p', visits))"
  proof -
    note w = run[unfolded traverseInZOrder_def]
    from w have h: "h < length g" by (auto simp: walk_AtNode split: if_splits)
    with w obtain cs where sel: "z_order_children g (g ! h) = Some cs"
      by (cases "z_order_children g (g ! h)") (auto simp: walk_AtNode recording_visitor_simps)
    then obtain n' where sorted: "sortChildrenByZOrder g (g ! h) = Some n'"
      and cs: "cs = filter (\<lambda>e. snd e \<noteq> Detached) (mChildren n')"
      by (auto simp: z_order_children_def)
    note stable = sortChildrenByZOrder_stable[OF sorted]
    from sorted have layers: "list_all (\<lambda>e. layer_of g (fst e) \<noteq> None) (mChildren (g ! h))"
      by (simp add: sortChildrenByZOrder_def split: if_splits)
    have keys: "list_all (\<lambda>e. \<exists>layer. layer_of g (fst e) = Some layer \<and> child_z g e = z layer)
           (mChildren n')"
      using layers stable by (auto simp: list_all_iff child_z_def)
    from w h sel
    have "walk z_order_children g recording_visitor (AtChildren cs p (before @ [(g ! h, p)]))
        = Some (Some (p', visits))"
      by (simp add: walk_AtNode recording_visitor_simps)
    from record_blocks[OF this same_frame_refl] obtain blocks where
      L: "visits = (before @ [(g ! h, p)]) @ concat blocks"
      and blocks: "list_all2 (\<lambda>e block. \<exists>m layer q2 rest.
               layer_of g (fst e) = Some layer
             \<and> block = (g ! fst e,
                         snd (ScopedAddToTraversalPath_ctor (p\<lparr>invalidRelativeRootId := m\<rparr>)
                                (id_layer layer) (snd e))) # rest
             \<and> walk z_order_children g recording_visitor
                 (AtNode (fst e)
                    (snd (ScopedAddToTraversalPath_ctor (p\<lparr>invalidRelativeRootId := m\<rparr>)
                            (id_layer layer) (snd e))) [])
                 = Some (Some (q2, block)))
            (filter (\<lambda>e. enters g p (snd e)) cs) blocks" by blast
    have flt: "filter (\<lambda>e. enters g p (snd e)) cs
        = filter (\<lambda>e. snd e \<noteq> Detached \<and> enters g p (snd e)) (mChildren n')"
      unfolding cs by simp
    from L have L': "visits = before @ (g ! h, p) # concat blocks" by simp
    from blocks have blocks': "list_all2 (\<lambda>e block. \<exists>m layer q rest.
             layer_of g (fst e) = Some layer
           \<and> block = (g ! fst e,
                       snd (ScopedAddToTraversalPath_ctor (p\<lparr>invalidRelativeRootId := m\<rparr>)
                              (id_layer layer) (snd e))) # rest
           \<and> traverseInZOrder g recording_visitor
                 (snd (ScopedAddToTraversalPath_ctor (p\<lparr>invalidRelativeRootId := m\<rparr>)
                         (id_layer layer) (snd e)))
                 (fst e) [] = Some (Some (q, block)))
          (filter (\<lambda>e. snd e \<noteq> Detached \<and> enters g p (snd e)) (mChildren n')) blocks"
      unfolding flt traverseInZOrder_def .
    from sorted keys stable L' blocks' show ?thesis by blast
  qed
  have total: "\<exists>r. traverseInZOrder g recording_visitor p h before = Some (Some r)"
    if "hierarchy_ok g rk \<and> h < length g"
    using that traverseInZOrder_returns[of g rk h recording_visitor p before] by simp
  from part total show ?thesis by blast
qed

text \<open>
  A layer whose children were added with the z values 3, 1, 2, 1 and 0, the last one
  \<open>Detached\<close>, the first one with children of its own added with the z values 2 and 1:
  the layers are visited in the order 3, 5 (the two with z 1, in insertion order), 4, 2,
  and below layer 2 the layers 8 and 7.
\<close>

theorem traverseInZOrder_visits_in_z_order_witness:
  "hierarchy_ok example_z_graph example_z_rank \<and> 0 < length example_z_graph
   \<and> map (child_z example_z_graph) (mChildren (example_z_graph ! 0)) = [3, 1, 2, 1, 0]
   \<and> map (child_z example_z_graph) (mChildren (example_z_graph ! 1)) = [2, 1]
   \<and> (\<exists>p' visits. traverseInZOrder example_z_graph recording_visitor example_root_path 0 []
          = Some (Some (p', (example_z_graph ! 0, example_root_path) # visits))
        \<and> map (\<lambda>e. (id_path (snd e), variant (snd e))) visits
            = [(3, Relative), (5, Attached), (4, Attached), (2, Attached),
               (8, Attached), (7, Attached)])"
proof -
  have len: "0 < length example_z_graph" by (simp add: example_z_graph_def)
  note inst = traverseInZOrder_visits_in_z_order[where g = example_z_graph
      and rk = example_z_rank and p = example_root_path and h = 0 and before = "[]"]
  from inst example_z_graph_ok len obtain p' L where
    run0: "traverseInZOrder example_z_graph recording_visitor example_root_path 0 []
             = Some (Some (p', L))"
    by fastforce
  from inst[of p' L] run0 obtain blocks where
    L: "L = (example_z_graph ! 0, example_root_path) # concat blocks" by auto
  note run = run0[unfolded L]
  have eval: "map_option (map_option (\<lambda>r. map (\<lambda>e. (id_path (snd e), variant (snd e))) (snd r)))
       (traverseInZOrder example_z_graph recording_visitor example_root_path 0 [])
     = Some (Some [(example_unassigned, Attached), (3, Relative), (5, Attached), (4, Attached),
                   (2, Attached), (8, Attached), (7, Attached)])"
    by (simp add: traverseInZOrder_def example_eval example_z_graph_def recording_visitor_simps)
  with run have "map (\<lambda>e. (id_path (snd e), variant (snd e))) (concat blocks)
            = [(3, Relative), (5, Attached), (4, Attached), (2, Attached),
               (8, Attached), (7, Attached)]" by simp
  with run have "\<exists>p' visits. traverseInZOrder example_z_graph recording_visitor example_root_path 0 []
          = Some (Some (p', (example_z_graph ! 0, example_root_path) # visits))
        \<and> map (\<lambda>e. (id_path (snd e), variant (snd e))) visits
            = [(3, Relative), (5, Attached), (4, Attached), (2, Attached),
               (8, Attached), (7, Attached)]"
    by (intro exI[of _ p'] exI[of _ "concat blocks"] conjI)
  moreover have "map (child_z example_z_graph) (mChildren (example_z_graph ! 0)) = [3, 1, 2, 1, 0]"
    "map (child_z example_z_graph) (mChildren (example_z_graph ! 1)) = [2, 1]"
    by (simp_all add: example_z_graph_def example_node_def example_layer_def child_z_def layer_of_def)
  ultimately show ?thesis using example_z_graph_ok len by simp
qed

end
